theory Spec2Isabelle
  imports Main "HOL-Library.Sublist"
begin

section \<open>Data model of \<^verbatim>\<open>private_gpt/ui/ui.py\<close>\<close>

text \<open>
  Python exceptions that the metadata look-ups of the module can raise:
  \<^verbatim>\<open>d["file_name"]\<close> raises \<^verbatim>\<open>KeyError\<close> when the key is missing and
  \<^verbatim>\<open>TypeError\<close> when \<^verbatim>\<open>d\<close> is \<^verbatim>\<open>None\<close>.
\<close>

datatype py_error = KeyError string | TypeError

text \<open>
  \<^verbatim>\<open>doc_metadata: dict[str, Any] | None\<close>. A dictionary is an association list
  read with \<open>map_of\<close>; the values this module reads are file names and page labels,
  which are strings. An empty dictionary is falsy in Python: \<open>md = []\<close>.
\<close>

type_synonym metadata = "(string \<times> string) list"

record ingested_doc =
  doc_id :: string
  doc_metadata :: "metadata option"

record chunk =
  document :: ingested_doc
  chunk_text :: string

record source =
  source_file :: string
  source_page :: string
  source_text :: string

datatype message_role = USER | ASSISTANT | SYSTEM

record chat_message =
  content :: string
  role :: message_role

datatype context_filter = ContextFilter (docs_ids: "string list")

text \<open>
  An element of \<^verbatim>\<open>completion_gen.response\<close>: a plain \<^verbatim>\<open>str\<close>, a
  \<^verbatim>\<open>ChatResponse\<close> with its optional \<^verbatim>\<open>.delta\<close>, or a value of another type
  (the \<^verbatim>\<open>if/elif\<close> of \<^verbatim>\<open>yield_deltas\<close> has no \<^verbatim>\<open>else\<close>).
\<close>

datatype delta = Str string | ChatResponse "string option" | OtherDelta

text \<open>The mutable attributes of \<^verbatim>\<open>PrivateGptUi\<close>.\<close>

record private_gpt_ui =
  selected_filename :: "string option"
  system_prompt :: string
  ui_mode :: string

text \<open>
  What the file handlers return to the selection widgets: the two buttons'
  \<^verbatim>\<open>interactive\<close> flags and the text of the selection box.
\<close>

record selection_ui =
  delete_button :: bool
  deselect_button :: bool
  selected_textbox :: string

section \<open>The external services\<close>

datatype call =
    ListIngested
  | Delete string
  | BulkIngest "(string \<times> string) list"
  | StreamChat "chat_message list" bool "context_filter option"
  | RetrieveRelevant string nat nat

text \<open>
  The state of the services as this module sees it: the ingested records and the
  calls received so far, in order.
\<close>

record services =
  docs :: "ingested_doc list"
  calls :: "call list"

text \<open>
  What the services answer is not decided by this module; it is a parameter: the delta
  stream of a generation call, the chunks of a retrieval call and the records a bulk
  ingestion creates.
\<close>

record backend =
  response :: "ingested_doc list \<Rightarrow> chat_message list \<Rightarrow> bool \<Rightarrow> context_filter option \<Rightarrow> delta list"
  relevant :: "ingested_doc list \<Rightarrow> string \<Rightarrow> nat \<Rightarrow> nat \<Rightarrow> chunk list"
  ingest :: "ingested_doc list \<Rightarrow> (string \<times> string) list \<Rightarrow> ingested_doc list"

text \<open>
  Modelled from the spec: the document store \<^verbatim>\<open>IngestService\<close>, whose code is not
  part of the module (section 6: \<^verbatim>\<open>listIngested() -> [Record]\<close>, \<^verbatim>\<open>delete(id)\<close>,
  \<^verbatim>\<open>bulkIngest([(name, path)]) -> [Record]\<close>). Listing returns the records, deleting
  removes the records with the identifier, bulk ingestion adds the records it creates.
\<close>

definition list_ingested :: "services \<Rightarrow> ingested_doc list \<times> services" where
  "list_ingested sv = (docs sv, sv\<lparr>calls := calls sv @ [ListIngested]\<rparr>)"

text \<open>
  Modelled from the spec: \<^verbatim>\<open>IngestService.delete(id)\<close>, not part of the module; it
  removes the records with the identifier.
\<close>

definition delete :: "string \<Rightarrow> services \<Rightarrow> services" where
  "delete d sv =
     sv\<lparr>docs := filter (\<lambda>r. doc_id r \<noteq> d) (docs sv), calls := calls sv @ [Delete d]\<rparr>"

text \<open>
  Modelled from the spec: \<^verbatim>\<open>IngestService.bulk_ingest([(name, path)])\<close>, not part of
  the module; it adds the records that the ingestion creates to the store.
\<close>

definition bulk_ingest :: "backend \<Rightarrow> (string \<times> string) list \<Rightarrow> services \<Rightarrow> services" where
  "bulk_ingest B fs sv =
     sv\<lparr>docs := docs sv @ ingest B (docs sv) fs, calls := calls sv @ [BulkIngest fs]\<rparr>"

text \<open>
  Modelled from the spec: the generation and retrieval services (section 6:
  \<^verbatim>\<open>streamChat(messages, useContext, filter?) -> stream of delta\<close>,
  \<^verbatim>\<open>retrieve(text, limit, neighborExpansion) -> [Chunk]\<close>); they record the call and
  answer as the backend parameter says.
\<close>

definition stream_chat ::
  "backend \<Rightarrow> chat_message list \<Rightarrow> bool \<Rightarrow> context_filter option \<Rightarrow> services \<Rightarrow> delta list \<times> services" where
  "stream_chat B messages use_context cf sv =
     (response B (docs sv) messages use_context cf,
      sv\<lparr>calls := calls sv @ [StreamChat messages use_context cf]\<rparr>)"

text \<open>
  Modelled from the spec: \<^verbatim>\<open>ChunksService.retrieve_relevant\<close>, not part of the module.
\<close>

definition retrieve_relevant ::
  "backend \<Rightarrow> string \<Rightarrow> nat \<Rightarrow> nat \<Rightarrow> services \<Rightarrow> chunk list \<times> services" where
  "retrieve_relevant B t limit prev_next_chunks sv =
     (relevant B (docs sv) t limit prev_next_chunks,
      sv\<lparr>calls := calls sv @ [RetrieveRelevant t limit prev_next_chunks]\<rparr>)"

section \<open>Python primitives used by the module\<close>

text \<open>\<^verbatim>\<open>d.get(key, default)\<close> and \<^verbatim>\<open>d[key]\<close>.\<close>

definition py_get :: "metadata \<Rightarrow> string \<Rightarrow> string \<Rightarrow> string" where
  "py_get md k dflt = (case map_of md k of None \<Rightarrow> dflt | Some v \<Rightarrow> v)"

definition py_getitem :: "metadata \<Rightarrow> string \<Rightarrow> py_error + string" where
  "py_getitem md k = (case map_of md k of None \<Rightarrow> Inl (KeyError k) | Some v \<Rightarrow> Inr v)"

text \<open>
  \<^verbatim>\<open>list(dict.fromkeys(xs).keys())\<close>: the keys in insertion order; a key that is
  already present keeps its position.
\<close>

fun fromkeys :: "'a list \<Rightarrow> 'a list \<Rightarrow> 'a list" where
  "fromkeys ks [] = ks"
| "fromkeys ks (x # xs) = fromkeys (if x \<in> set ks then ks else ks @ [x]) xs"

definition dict_fromkeys_keys :: "'a list \<Rightarrow> 'a list" where
  "dict_fromkeys_keys xs = fromkeys [] xs"

text \<open>
  \<^verbatim>\<open>s.split(sep)\<close> for a non-empty separator: the text is cut at the occurrences of
  \<open>sep\<close> found from left to right without overlap. \<open>skip\<close> counts the characters of a
  separator just found that are still to be passed over, \<open>cur\<close> is the current field
  in reverse.
\<close>

fun split_from :: "string \<Rightarrow> nat \<Rightarrow> string \<Rightarrow> string \<Rightarrow> string list" where
  "split_from sep skip cur [] = [rev cur]"
| "split_from sep (Suc skip) cur (c # cs) = split_from sep skip cur cs"
| "split_from sep 0 cur (c # cs) =
     (if prefix sep (c # cs) then rev cur # split_from sep (length sep - 1) [] cs
      else split_from sep 0 (c # cur) cs)"

definition py_split :: "string \<Rightarrow> string \<Rightarrow> string list" where
  "py_split sep s = split_from sep 0 [] s"

text \<open>
  The specification's words for what the History Builder keeps of an assistant text:
  the part strictly before the first occurrence of the separator, the whole text when
  there is none.
\<close>

fun text_before :: "string \<Rightarrow> string \<Rightarrow> string" where
  "text_before sep [] = []"
| "text_before sep (c # cs) = (if prefix sep (c # cs) then [] else c # text_before sep cs)"

text \<open>\<^verbatim>\<open>sep.join(xs)\<close> and \<^verbatim>\<open>str(n)\<close> for a natural number.\<close>

fun join :: "string \<Rightarrow> string list \<Rightarrow> string" where
  "join sep [] = []"
| "join sep [x] = x"
| "join sep (x # y # ys) = x @ sep @ join sep (y # ys)"

fun str_nat :: "nat \<Rightarrow> string" where
  "str_nat n =
     (if n < 10 then [char_of (48 + n)]
      else str_nat (n div 10) @ [char_of (48 + n mod 10)])"

declare str_nat.simps [simp del]

section \<open>Constants\<close>

definition SOURCES_SEPARATOR :: string where
  "SOURCES_SEPARATOR = [CHR 0x0A, CHR 0x0A] @ '' Sources: '' @ [CHR 0x0A]"

definition MODES :: "string list" where
  "MODES = [''Query Files'', ''Search Files'', ''LLM Chat (no context from files)'']"

section \<open>\<^verbatim>\<open>Source.curate_sources\<close>\<close>

definition chunk_source :: "chunk \<Rightarrow> source" where
  "chunk_source c =
     (let md = doc_metadata (document c);
          file_name = (case md of None \<Rightarrow> ''-''
                       | Some m \<Rightarrow> if m = [] then ''-'' else py_get m ''file_name'' ''-'');
          page_label = (case md of None \<Rightarrow> ''-''
                        | Some m \<Rightarrow> if m = [] then ''-'' else py_get m ''page_label'' ''-'')
      in \<lparr>source_file = file_name, source_page = page_label, source_text = chunk_text c\<rparr>)"

fun curate_loop :: "source list \<Rightarrow> chunk list \<Rightarrow> source list" where
  "curate_loop curated_sources [] = curated_sources"
| "curate_loop curated_sources (c # cs) =
     curate_loop (dict_fromkeys_keys (curated_sources @ [chunk_source c])) cs"

definition curate_sources :: "chunk list \<Rightarrow> source list" where
  "curate_sources sources = curate_loop [] sources"

text \<open>
  The specification's words for the order of the result: an element of the input is
  kept exactly at the positions where it has not occurred before, in input order.
\<close>

definition first_occurrences :: "'a list \<Rightarrow> 'a list" where
  "first_occurrences xs =
     map (\<lambda>i. xs ! i) (filter (\<lambda>i. xs ! i \<notin> set (take i xs)) [0..<length xs])"

section \<open>\<^verbatim>\<open>yield_deltas\<close>\<close>

definition delta_text :: "delta \<Rightarrow> string" where
  "delta_text d =
     (case d of Str s \<Rightarrow> s
      | ChatResponse dl \<Rightarrow> (case dl of None \<Rightarrow> [] | Some s \<Rightarrow> s)
      | OtherDelta \<Rightarrow> [])"

text \<open>
  The generator yields \<open>full_response\<close> after each delta and once more after the loop.
\<close>

fun yield_loop :: "string \<Rightarrow> delta list \<Rightarrow> string list" where
  "yield_loop full_response [] = [full_response]"
| "yield_loop full_response (d # ds) =
     (full_response @ delta_text d) # yield_loop (full_response @ delta_text d) ds"

definition yield_deltas :: "delta list \<Rightarrow> string list" where
  "yield_deltas stream = yield_loop [] stream"

section \<open>\<^verbatim>\<open>build_history\<close> and the message list of a turn\<close>

definition interaction_messages :: "string \<times> string \<Rightarrow> chat_message list" where
  "interaction_messages interaction =
     [\<lparr>content = fst interaction, role = USER\<rparr>,
      \<lparr>content = hd (py_split SOURCES_SEPARATOR (snd interaction)), role = ASSISTANT\<rparr>]"

definition history_messages :: "(string \<times> string) list \<Rightarrow> chat_message list" where
  "history_messages history = concat (map interaction_messages history)"

definition build_history :: "(string \<times> string) list \<Rightarrow> chat_message list" where
  "build_history history = take 20 (history_messages history)"

definition all_messages :: "private_gpt_ui \<Rightarrow> string \<Rightarrow> (string \<times> string) list \<Rightarrow> chat_message list" where
  "all_messages ui message history =
     (let new_message = \<lparr>content = message, role = USER\<rparr>;
          msgs = build_history history @ [new_message]
      in if system_prompt ui \<noteq> []
         then \<lparr>content = system_prompt ui, role = SYSTEM\<rparr> # msgs
         else msgs)"

section \<open>\<^verbatim>\<open>_chat\<close>\<close>

text \<open>
  The scan of the \<^verbatim>\<open>"Query Files"\<close> case:
  \<^verbatim>\<open>ingested_document.doc_metadata["file_name"] == self._selected_filename\<close> is
  evaluated for every record, with no test of the metadata before the subscript.
\<close>

fun selected_docs_ids :: "string \<Rightarrow> string list \<Rightarrow> ingested_doc list \<Rightarrow> py_error + string list" where
  "selected_docs_ids sel ids [] = Inr ids"
| "selected_docs_ids sel ids (d # ds) =
     (case doc_metadata d of
        None \<Rightarrow> Inl TypeError
      | Some md \<Rightarrow>
          (case py_getitem md ''file_name'' of
             Inl e \<Rightarrow> Inl e
           | Inr fn \<Rightarrow> selected_docs_ids sel (if fn = sel then ids @ [doc_id d] else ids) ds))"

definition query_files_turn ::
  "backend \<Rightarrow> private_gpt_ui \<Rightarrow> services \<Rightarrow> string \<Rightarrow> (string \<times> string) list
     \<Rightarrow> (py_error + string list) \<times> services" where
  "query_files_turn B ui sv message history =
     (case selected_filename ui of
        None \<Rightarrow>
          (let (query_stream, sv') = stream_chat B (all_messages ui message history) True None sv
           in (Inr (yield_deltas query_stream), sv'))
      | Some sel \<Rightarrow>
          (let (ingested, sv1) = list_ingested sv
           in case selected_docs_ids sel [] ingested of
                Inl e \<Rightarrow> (Inl e, sv1)
              | Inr ids \<Rightarrow>
                  (let (query_stream, sv2) =
                         stream_chat B (all_messages ui message history) True
                           (Some (ContextFilter ids)) sv1
                   in (Inr (yield_deltas query_stream), sv2))))"

definition llm_chat_turn ::
  "backend \<Rightarrow> private_gpt_ui \<Rightarrow> services \<Rightarrow> string \<Rightarrow> (string \<times> string) list
     \<Rightarrow> (py_error + string list) \<times> services" where
  "llm_chat_turn B ui sv message history =
     (let (llm_stream, sv') = stream_chat B (all_messages ui message history) False None sv
      in (Inr (yield_deltas llm_stream), sv'))"

definition format_source :: "nat \<times> source \<Rightarrow> string" where
  "format_source p =
     str_nat (fst p) @ ''. **'' @ source_file (snd p) @ '' (page '' @ source_page (snd p)
       @ '')**'' @ [CHR 0x0A] @ '' '' @ source_text (snd p)"

definition search_files_turn ::
  "backend \<Rightarrow> services \<Rightarrow> string \<Rightarrow> (py_error + string list) \<times> services" where
  "search_files_turn B sv message =
     (let (response, sv') = retrieve_relevant B message 4 0 sv;
          sources = curate_sources response
      in (Inr [join [CHR 0x0A, CHR 0x0A, CHR 0x0A]
                 (map format_source (zip [1..<Suc (length sources)] sources))], sv'))"

text \<open>
  The entry point. The result is the sequence of values the generator yields, or the
  exception it raises, and the services after the turn. The first statement of the
  body assigns \<^verbatim>\<open>mode = "Query Files"\<close>; the \<^verbatim>\<open>match\<close> has no default case.
\<close>

definition chat ::
  "backend \<Rightarrow> private_gpt_ui \<Rightarrow> services \<Rightarrow> string \<Rightarrow> (string \<times> string) list \<Rightarrow> string
     \<Rightarrow> (py_error + string list) \<times> services" where
  "chat B ui sv message history mode =
     (let mode = ''Query Files''
      in if mode = ''Query Files'' then query_files_turn B ui sv message history
         else if mode = ''LLM Chat (no context from files)''
           then llm_chat_turn B ui sv message history
         else if mode = ''Search Files'' then search_files_turn B sv message
         else (Inr [], sv))"

section \<open>The file handlers\<close>

fun list_files_loop :: "string set \<Rightarrow> ingested_doc list \<Rightarrow> string set" where
  "list_files_loop files [] = files"
| "list_files_loop files (d # ds) =
     (case doc_metadata d of
        None \<Rightarrow> list_files_loop files ds
      | Some md \<Rightarrow>
          list_files_loop (insert (py_get md ''file_name'' ''[FILE NAME MISSING]'') files) ds)"

text \<open>The rows \<^verbatim>\<open>[[row] for row in files]\<close> of a Python set: their order is not fixed.\<close>

definition list_ingested_files :: "services \<Rightarrow> string set \<times> services" where
  "list_ingested_files sv =
     (let (ingested, sv') = list_ingested sv in (list_files_loop {} ingested, sv'))"

fun upload_scan :: "string list \<Rightarrow> string list \<Rightarrow> ingested_doc list \<Rightarrow> py_error + string list" where
  "upload_scan file_names doc_ids_to_delete [] = Inr doc_ids_to_delete"
| "upload_scan file_names doc_ids_to_delete (d # ds) =
     (case doc_metadata d of
        None \<Rightarrow> upload_scan file_names doc_ids_to_delete ds
      | Some md \<Rightarrow>
          if md = [] then upload_scan file_names doc_ids_to_delete ds
          else (case py_getitem md ''file_name'' of
                  Inl e \<Rightarrow> Inl e
                | Inr fn \<Rightarrow>
                    upload_scan file_names
                      (if fn \<in> set file_names then doc_ids_to_delete @ [doc_id d]
                       else doc_ids_to_delete) ds))"

text \<open>
  \<open>Path\<close> and \<open>path_name\<close> are \<^verbatim>\<open>Path(file)\<close> and \<^verbatim>\<open>path.name\<close> of the
  standard library: the path made of an uploaded file name, a path being written as
  its string form \<^verbatim>\<open>str(path)\<close>, and the display name of a path.
\<close>

definition upload_file ::
  "(string \<Rightarrow> string) \<Rightarrow> (string \<Rightarrow> string) \<Rightarrow> backend \<Rightarrow> string list \<Rightarrow> services
     \<Rightarrow> (py_error + unit) \<times> services" where
  "upload_file Path path_name B files sv =
     (let paths = map Path files;
          file_names = map path_name paths;
          (ingested, sv1) = list_ingested sv
      in case upload_scan file_names [] ingested of
           Inl e \<Rightarrow> (Inl e, sv1)
         | Inr doc_ids_to_delete \<Rightarrow>
             (let sv2 = (if length doc_ids_to_delete > 0
                         then fold delete doc_ids_to_delete sv1 else sv1)
              in (Inr (), bulk_ingest B (map (\<lambda>path. (path_name path, path)) paths) sv2)))"

definition delete_all_files ::
  "private_gpt_ui \<Rightarrow> services \<Rightarrow> (string set \<times> selection_ui) \<times> private_gpt_ui \<times> services" where
  "delete_all_files ui sv =
     (let (ingested_files, sv1) = list_ingested sv;
          sv2 = fold (\<lambda>ingested_document. delete (doc_id ingested_document)) ingested_files sv1;
          (rows, sv3) = list_ingested_files sv2
      in ((rows, \<lparr>delete_button = False, deselect_button = False,
                  selected_textbox = ''All files''\<rparr>), ui, sv3))"

text \<open>
  The loop of \<^verbatim>\<open>_delete_selected_file\<close> runs over the list returned by
  \<^verbatim>\<open>list_ingested()\<close> and deletes as it goes, so an exception leaves the deletions
  made before it in place.
\<close>

fun delete_selected_loop ::
  "string option \<Rightarrow> ingested_doc list \<Rightarrow> services \<Rightarrow> py_error option \<times> services" where
  "delete_selected_loop sel [] sv = (None, sv)"
| "delete_selected_loop sel (d # ds) sv =
     (case doc_metadata d of
        None \<Rightarrow> delete_selected_loop sel ds sv
      | Some md \<Rightarrow>
          if md = [] then delete_selected_loop sel ds sv
          else (case py_getitem md ''file_name'' of
                  Inl e \<Rightarrow> (Some e, sv)
                | Inr fn \<Rightarrow>
                    delete_selected_loop sel ds
                      (if Some fn = sel then delete (doc_id d) sv else sv)))"

definition delete_selected_file ::
  "private_gpt_ui \<Rightarrow> services
     \<Rightarrow> (py_error + string set \<times> selection_ui) \<times> private_gpt_ui \<times> services" where
  "delete_selected_file ui sv =
     (let (ingested, sv1) = list_ingested sv
      in case delete_selected_loop (selected_filename ui) ingested sv1 of
           (Some e, sv2) \<Rightarrow> (Inl e, ui, sv2)
         | (None, sv2) \<Rightarrow>
             (let (rows, sv3) = list_ingested_files sv2
              in (Inr (rows, \<lparr>delete_button = False, deselect_button = False,
                               selected_textbox = ''All files''\<rparr>), ui, sv3)))"

definition deselect_selected_file :: "private_gpt_ui \<Rightarrow> selection_ui \<times> private_gpt_ui" where
  "deselect_selected_file ui =
     (\<lparr>delete_button = False, deselect_button = False, selected_textbox = ''All files''\<rparr>,
      ui\<lparr>selected_filename := None\<rparr>)"

definition selected_a_file :: "private_gpt_ui \<Rightarrow> string \<Rightarrow> selection_ui \<times> private_gpt_ui" where
  "selected_a_file ui v =
     (\<lparr>delete_button = True, deselect_button = True, selected_textbox = v\<rparr>,
      ui\<lparr>selected_filename := Some v\<rparr>)"

text \<open>The file-name metadata of a record, when it has one.\<close>

definition file_name_of :: "ingested_doc \<Rightarrow> string option" where
  "file_name_of d = (case doc_metadata d of None \<Rightarrow> None | Some md \<Rightarrow> map_of md ''file_name'')"

section \<open>Example data\<close>

definition example_backend :: backend where
  "example_backend =
     \<lparr>response = (\<lambda>ds ms uc cf. [Str ''Hel'', Str ''lo'', Str []]),
      relevant = (\<lambda>ds t l n. []),
      ingest = (\<lambda>ds fs. map (\<lambda>f. \<lparr>doc_id = ''new-'' @ fst f,
                                      doc_metadata = Some [(''file_name'', fst f)]\<rparr>) fs)\<rparr>"

definition example_ui :: "string option \<Rightarrow> private_gpt_ui" where
  "example_ui sel =
     \<lparr>selected_filename = sel, system_prompt = ''Answer from the context.'',
      ui_mode = ''Query Files''\<rparr>"

text \<open>A two-page \<^verbatim>\<open>a.pdf\<close> and a one-page \<^verbatim>\<open>b.pdf\<close>.\<close>

definition example_store :: services where
  "example_store =
     \<lparr>docs = [\<lparr>doc_id = ''d1'', doc_metadata = Some [(''file_name'', ''a.pdf''), (''page_label'', ''1'')]\<rparr>,
              \<lparr>doc_id = ''d2'', doc_metadata = Some [(''file_name'', ''a.pdf''), (''page_label'', ''2'')]\<rparr>,
              \<lparr>doc_id = ''d3'', doc_metadata = Some [(''file_name'', ''b.pdf'')]\<rparr>],
      calls = []\<rparr>"

text \<open>A store whose record has no metadata, and one whose record lacks the file-name key.\<close>

definition no_metadata_store :: services where
  "no_metadata_store = \<lparr>docs = [\<lparr>doc_id = ''d1'', doc_metadata = None\<rparr>], calls = []\<rparr>"

definition no_file_name_store :: services where
  "no_file_name_store =
     \<lparr>docs = [\<lparr>doc_id = ''d1'', doc_metadata = Some [(''page_label'', ''1'')]\<rparr>], calls = []\<rparr>"

text \<open>A transcript of eleven turns, \<open>(q1, a1)\<close> to \<open>(q11, a11)\<close>.\<close>

definition eleven_turns :: "(string \<times> string) list" where
  "eleven_turns = map (\<lambda>n. (CHR ''q'' # str_nat n, CHR ''a'' # str_nat n)) [1..<12]"

text \<open>
  The transcript of the specification's end-to-end example: one turn whose assistant
  text carries a sources block.
\<close>

definition example_answer :: string where
  "example_answer = ''Hello world'' @ SOURCES_SEPARATOR @ ''1. doc.pdf''"

definition example_transcript :: "(string \<times> string) list" where
  "example_transcript = [(''Hi'', example_answer)]"

text \<open>
  A store with a record of \<^verbatim>\<open>a.pdf\<close> and a record whose metadata lacks the
  file-name key.
\<close>

definition mixed_store :: services where
  "mixed_store =
     \<lparr>docs = [\<lparr>doc_id = ''d1'', doc_metadata = Some [(''file_name'', ''a.pdf'')]\<rparr>,
              \<lparr>doc_id = ''d2'', doc_metadata = Some [(''page_label'', ''1'')]\<rparr>],
      calls = []\<rparr>"

section \<open>Insertion-ordered deduplication\<close>

lemma remdups_drop_mid: "x \<in> set B \<Longrightarrow> remdups (A @ x # B) = remdups (A @ B)"
  by (induction A) auto

lemma fromkeys_first: "distinct ks \<Longrightarrow> fromkeys ks xs = rev (remdups (rev (ks @ xs)))"
proof (induction xs arbitrary: ks)
  case Nil
  then show ?case by (simp add: distinct_remdups_id)
next
  case (Cons x xs)
  show ?case
  proof (cases "x \<in> set ks")
    case True
    then have "remdups (rev xs @ x # rev ks) = remdups (rev xs @ rev ks)"
      by (intro remdups_drop_mid) simp
    with True Cons show ?thesis by simp
  next
    case False
    with Cons.prems have "distinct (ks @ [x])" by simp
    from Cons.IH [OF this] False show ?thesis by simp
  qed
qed

lemma fromkeys_append: "fromkeys ks (xs @ ys) = fromkeys (fromkeys ks xs) ys"
  by (induction xs arbitrary: ks) auto

lemma fromkeys_id: "distinct ks \<Longrightarrow> fromkeys [] ks = ks"
  using fromkeys_first [of "[]" ks] by (simp add: distinct_remdups_id)

text \<open>
  Deduplicating after every append, as the loop does, gives the same list as
  deduplicating once.
\<close>

lemma curate_loop_fromkeys:
  "distinct cur \<Longrightarrow> curate_loop cur cs = fromkeys cur (map chunk_source cs)"
proof (induction cs arbitrary: cur)
  case Nil
  then show ?case by simp
next
  case (Cons c cs)
  let ?s = "chunk_source c"
  have step: "dict_fromkeys_keys (cur @ [?s]) = (if ?s \<in> set cur then cur else cur @ [?s])"
    using Cons.prems by (simp add: dict_fromkeys_keys_def fromkeys_append fromkeys_id)
  have "distinct (dict_fromkeys_keys (cur @ [?s]))"
    using Cons.prems by (simp add: step)
  from Cons.IH [OF this] show ?case by (simp add: step)
qed

lemma first_occurrences_snoc:
  "first_occurrences (xs @ [x]) = first_occurrences xs @ (if x \<in> set xs then [] else [x])"
proof -
  have "filter (\<lambda>i. (xs @ [x]) ! i \<notin> set (take i (xs @ [x]))) [0..<length xs]
      = filter (\<lambda>i. xs ! i \<notin> set (take i xs)) [0..<length xs]"
    by (rule filter_cong) (auto simp: nth_append)
  moreover have "map (\<lambda>i. (xs @ [x]) ! i) (filter (\<lambda>i. xs ! i \<notin> set (take i xs)) [0..<length xs])
      = map (\<lambda>i. xs ! i) (filter (\<lambda>i. xs ! i \<notin> set (take i xs)) [0..<length xs])"
    by (rule map_cong) (auto simp: nth_append)
  ultimately show ?thesis by (simp add: first_occurrences_def)
qed

lemma first_occurrences_remdups: "first_occurrences xs = rev (remdups (rev xs))"
proof (induction xs rule: rev_induct)
  case Nil
  show ?case by (simp add: first_occurrences_def)
next
  case (snoc x xs)
  then show ?case by (simp add: first_occurrences_snoc)
qed

text \<open>
  C9. For every list of chunks, \<^verbatim>\<open>curate_sources\<close> returns a list with no two equal
  sources (equal file, page and text), and it is the list of the sources of the chunks
  at their first occurrences, in input order: a later duplicate is dropped.
\<close>

theorem curate_sources_first_occurrences:
  "distinct (curate_sources sources)
   \<and> curate_sources sources = first_occurrences (map chunk_source sources)"
  by (simp add: curate_sources_def curate_loop_fromkeys fromkeys_first first_occurrences_remdups)

section \<open>The streaming accumulator\<close>

lemma yield_loop_eq:
  "yield_loop full ds =
     map (\<lambda>k. full @ concat (map delta_text (take k ds))) [1..<Suc (length ds)]
       @ [full @ concat (map delta_text ds)]"
proof (induction ds arbitrary: full)
  case Nil
  show ?case by simp
next
  case (Cons d ds)
  have "[1..<Suc (Suc (length ds))] = 1 # map Suc [1..<Suc (length ds)]"
    by (simp add: upt_conv_Cons map_Suc_upt del: upt_Suc)
  then show ?case by (simp add: Cons.IH comp_def del: upt_Suc)
qed

section \<open>Splitting at the sources separator\<close>

lemma hd_split_from: "hd (split_from sep 0 cur s) = rev cur @ text_before sep s"
  by (induction s arbitrary: cur) auto

lemma split_from_nonempty: "split_from sep k cur s \<noteq> []"
  by (induction sep k cur s rule: split_from.induct) auto

lemma hd_py_split: "hd (py_split sep s) = text_before sep s"
  by (simp add: py_split_def hd_split_from)

lemma text_before_prefix: "prefix (text_before sep s) s"
  by (induction s) auto

lemma text_before_no_start:
  "j < length (text_before sep s) \<Longrightarrow> \<not> prefix sep (drop j s)"
proof (induction s arbitrary: j)
  case Nil
  then show ?case by simp
next
  case (Cons c cs)
  then show ?case by (cases j) (auto split: if_splits)
qed

lemma text_before_no_sep:
  assumes "sep \<noteq> []"
  shows "\<not> sublist sep (text_before sep s)"
proof
  assume "sublist sep (text_before sep s)"
  then obtain ps ss where eq: "text_before sep s = ps @ sep @ ss"
    by (auto simp: sublist_def)
  obtain r where s: "s = text_before sep s @ r"
    using text_before_prefix [of sep s] by (auto simp: prefix_def)
  have "length ps < length (text_before sep s)"
    using assms eq by (cases sep) auto
  then have "\<not> prefix sep (drop (length ps) s)"
    by (rule text_before_no_start)
  moreover have "drop (length ps) s = sep @ ss @ r"
    by (subst s) (simp add: eq)
  ultimately show False by simp
qed

lemma text_before_cut:
  "sublist sep s \<Longrightarrow> \<exists>rest. s = text_before sep s @ sep @ rest"
proof (induction s)
  case Nil
  then show ?case by (auto simp: sublist_def)
next
  case (Cons c cs)
  show ?case
  proof (cases "prefix sep (c # cs)")
    case True
    then show ?thesis by (auto simp: prefix_def)
  next
    case False
    with Cons.prems have "sublist sep cs"
      by (auto simp: sublist_Cons_right)
    from Cons.IH [OF this] False show ?thesis by auto
  qed
qed

lemma text_before_id: "\<not> sublist sep s \<Longrightarrow> text_before sep s = s"
proof (induction s)
  case Nil
  then show ?case by simp
next
  case (Cons c cs)
  then have "\<not> prefix sep (c # cs)" and "\<not> sublist sep cs"
    by (auto simp: sublist_Cons_right)
  with Cons.IH show ?case by simp
qed

lemma SOURCES_SEPARATOR_nonempty: "SOURCES_SEPARATOR \<noteq> []"
  by (simp add: SOURCES_SEPARATOR_def)

section \<open>The history builder\<close>

lemma length_history_messages: "length (history_messages history) = 2 * length history"
  by (induction history) (simp_all add: history_messages_def interaction_messages_def)

lemma history_messages_nth:
  "i < length history \<Longrightarrow>
     history_messages history ! (2 * i) = \<lparr>content = fst (history ! i), role = USER\<rparr>
   \<and> history_messages history ! (2 * i + 1) =
       \<lparr>content = hd (py_split SOURCES_SEPARATOR (snd (history ! i))), role = ASSISTANT\<rparr>"
proof (induction history arbitrary: i)
  case Nil
  then show ?case by simp
next
  case (Cons p ps)
  show ?case
  proof (cases i)
    case 0
    then show ?thesis by (simp add: history_messages_def interaction_messages_def)
  next
    case (Suc k)
    with Cons.prems have "k < length ps" by simp
    from Cons.IH [OF this] Suc show ?thesis
      by (simp add: history_messages_def interaction_messages_def)
  qed
qed

lemma history_messages_assistant:
  "m \<in> set (history_messages history) \<Longrightarrow> role m = ASSISTANT \<Longrightarrow>
     \<exists>p \<in> set history. content m = hd (py_split SOURCES_SEPARATOR (snd p))"
proof (induction history)
  case Nil
  then show ?case by (simp add: history_messages_def)
next
  case (Cons p ps)
  from Cons.prems have "m \<in> set (interaction_messages p) \<or> m \<in> set (history_messages ps)"
    by (simp add: history_messages_def)
  then show ?case
  proof
    assume "m \<in> set (interaction_messages p)"
    with Cons.prems(2) have "content m = hd (py_split SOURCES_SEPARATOR (snd p))"
      by (auto simp: interaction_messages_def)
    then show ?thesis by simp
  next
    assume "m \<in> set (history_messages ps)"
    with Cons show ?thesis by auto
  qed
qed

section \<open>The turn entry point\<close>

lemma file_name_of_None_md: "doc_metadata d = None \<Longrightarrow> file_name_of d = None"
  by (simp add: file_name_of_def)

lemma file_name_of_Some_md:
  "doc_metadata d = Some md \<Longrightarrow> file_name_of d = map_of md ''file_name''"
  by (simp add: file_name_of_def)

lemma chat_unselected:
  "selected_filename ui = None \<Longrightarrow>
     chat B ui sv m h md =
       (Inr (yield_deltas (response B (docs sv) (all_messages ui m h) True None)),
        sv\<lparr>calls := calls sv @ [StreamChat (all_messages ui m h) True None]\<rparr>)"
  by (simp add: chat_def query_files_turn_def stream_chat_def)

lemma chat_selected:
  "selected_filename ui = Some sel \<Longrightarrow>
     chat B ui sv m h md =
       (case selected_docs_ids sel [] (docs sv) of
          Inl e \<Rightarrow> (Inl e, sv\<lparr>calls := calls sv @ [ListIngested]\<rparr>)
        | Inr ids \<Rightarrow>
            (Inr (yield_deltas (response B (docs sv) (all_messages ui m h) True
                                  (Some (ContextFilter ids)))),
             sv\<lparr>calls := calls sv @ [ListIngested,
                     StreamChat (all_messages ui m h) True (Some (ContextFilter ids))]\<rparr>))"
  by (simp add: chat_def query_files_turn_def stream_chat_def list_ingested_def split: sum.splits)

text \<open>The identifiers the scan collects, when it does not raise.\<close>

lemma selected_docs_ids_Inr:
  "selected_docs_ids sel ids ds = Inr r \<Longrightarrow>
     r = ids @ map doc_id (filter (\<lambda>d. file_name_of d = Some sel) ds)"
proof (induction ds arbitrary: ids)
  case Nil
  then show ?case by simp
next
  case (Cons d ds)
  from Cons.prems obtain md fn where md: "doc_metadata d = Some md"
    and fn: "map_of md ''file_name'' = Some fn"
    and rest: "selected_docs_ids sel (if fn = sel then ids @ [doc_id d] else ids) ds = Inr r"
    by (auto simp: py_getitem_def split: option.splits)
  have "file_name_of d = Some fn"
    using md fn by (simp add: file_name_of_Some_md)
  with Cons.IH [OF rest] show ?case by auto
qed

lemma selected_docs_ids_total:
  "\<forall>d \<in> set ds. file_name_of d \<noteq> None \<Longrightarrow>
     selected_docs_ids sel ids ds =
       Inr (ids @ map doc_id (filter (\<lambda>d. file_name_of d = Some sel) ds))"
proof (induction ds arbitrary: ids)
  case Nil
  then show ?case by simp
next
  case (Cons d ds)
  from Cons.prems obtain fn where f: "file_name_of d = Some fn" by auto
  then obtain md where md: "doc_metadata d = Some md" and fn: "map_of md ''file_name'' = Some fn"
    by (auto simp: file_name_of_def split: option.splits)
  from Cons.prems have "\<forall>d \<in> set ds. file_name_of d \<noteq> None" by simp
  from Cons.IH [OF this] show ?case
    using md fn f by (simp add: py_getitem_def)
qed

lemma all_messages_eq:
  "all_messages ui m h =
     (if system_prompt ui = [] then [] else [\<lparr>content = system_prompt ui, role = SYSTEM\<rparr>])
       @ take 20 (history_messages h) @ [\<lparr>content = m, role = USER\<rparr>]"
  by (simp add: all_messages_def build_history_def)

text \<open>The calls a turn adds to those the services had received before it.\<close>

lemma chat_new_calls:
  "drop (length (calls sv)) (calls (snd (chat B ui sv m h md))) =
     (case selected_filename ui of
        None \<Rightarrow> [StreamChat (all_messages ui m h) True None]
      | Some sel \<Rightarrow>
          (case selected_docs_ids sel [] (docs sv) of
             Inl e \<Rightarrow> [ListIngested]
           | Inr ids \<Rightarrow>
               [ListIngested, StreamChat (all_messages ui m h) True (Some (ContextFilter ids))]))"
  by (cases "selected_filename ui")
     (simp_all add: chat_unselected chat_selected split: sum.splits)

text \<open>
  C1. The mode argument of \<^verbatim>\<open>_chat\<close> is ignored: two calls that differ only in it
  yield the same values (or raise the same exception) and leave the services with the
  same calls, and the turn is the \<^verbatim>\<open>"Query Files"\<close> strategy.
\<close>

theorem chat_ignores_mode:
  "chat B ui sv message history mode1 = chat B ui sv message history mode2
   \<and> chat B ui sv message history mode1 = query_files_turn B ui sv message history"
  by (simp add: chat_def)

text \<open>
  C10. The message list of a turn is the system message (when the prompt is not
  empty), then at most 20 messages of the transcript, then the new user message: the
  new message is the last element whatever the length of the transcript, the system
  message is at position 0, and this list is the one every generation call of the
  turn receives.
\<close>

theorem chat_new_message_last:
  "all_messages ui message history =
     (if system_prompt ui = [] then [] else [\<lparr>content = system_prompt ui, role = SYSTEM\<rparr>])
       @ take 20 (history_messages history) @ [\<lparr>content = message, role = USER\<rparr>]
   \<and> last (all_messages ui message history) = \<lparr>content = message, role = USER\<rparr>
   \<and> (system_prompt ui \<noteq> [] \<longrightarrow>
        all_messages ui message history ! 0 = \<lparr>content = system_prompt ui, role = SYSTEM\<rparr>)
   \<and> (\<forall>msgs uc cf.
        StreamChat msgs uc cf \<in> set (drop (length (calls sv))
                                     (calls (snd (chat B ui sv message history mode1))))
        \<longrightarrow> msgs = all_messages ui message history)"
proof -
  have "\<forall>msgs uc cf.
        StreamChat msgs uc cf \<in> set (drop (length (calls sv))
                                     (calls (snd (chat B ui sv message history mode1))))
        \<longrightarrow> msgs = all_messages ui message history"
    unfolding chat_new_calls by (auto split: option.splits sum.splits)
  then show ?thesis by (simp add: all_messages_eq)
qed

text \<open>
  C4, as the claim states it, fails: with \<^verbatim>\<open>c.pdf\<close> selected and no record of that
  name in the store, the generation call carries \<^verbatim>\<open>ContextFilter(docs_ids=[])\<close>, not
  \<^verbatim>\<open>None\<close>.
\<close>

theorem no_match_filter_counterexample:
  "Some ''c.pdf'' \<notin> set (map file_name_of (docs example_store))
   \<and> last (calls (snd (chat example_backend (example_ui (Some ''c.pdf'')) example_store ''q'' [] ''Query Files'')))
       = StreamChat (all_messages (example_ui (Some ''c.pdf'')) ''q'' []) True (Some (ContextFilter []))
   \<and> last (calls (snd (chat example_backend (example_ui (Some ''c.pdf'')) example_store ''q'' [] ''Query Files'')))
       \<noteq> StreamChat (all_messages (example_ui (Some ''c.pdf'')) ''q'' []) True None"
  by (simp add: chat_selected example_ui_def example_store_def file_name_of_def py_getitem_def)

text \<open>
  C4, amended. In a turn with a document selected and no record whose file-name
  metadata equals the selected name, every generation call of the turn is issued with
  context enabled and the filter \<^verbatim>\<open>ContextFilter(docs_ids=[])\<close>, a filter with an
  empty list of identifiers; and when every record has file-name metadata the turn
  raises nothing and issues exactly that call after listing the records.
\<close>

theorem no_match_filter_empty:
  assumes "selected_filename ui = Some sel"
    and "\<forall>d \<in> set (docs sv). file_name_of d \<noteq> Some sel"
  shows "(\<forall>msgs uc cf.
            StreamChat msgs uc cf \<in> set (drop (length (calls sv))
                                         (calls (snd (chat B ui sv message history mode1))))
            \<longrightarrow> cf = Some (ContextFilter []) \<and> uc)
       \<and> ((\<forall>d \<in> set (docs sv). file_name_of d \<noteq> None) \<longrightarrow>
            chat B ui sv message history mode1 =
              (Inr (yield_deltas (response B (docs sv) (all_messages ui message history) True
                                    (Some (ContextFilter [])))),
               sv\<lparr>calls := calls sv @ [ListIngested,
                       StreamChat (all_messages ui message history) True
                         (Some (ContextFilter []))]\<rparr>))"
proof -
  have none: "filter (\<lambda>d. file_name_of d = Some sel) (docs sv) = []"
    using assms(2) by (simp add: filter_empty_conv)
  have ids: "ids = []" if "selected_docs_ids sel [] (docs sv) = Inr ids" for ids
    using selected_docs_ids_Inr [OF that] none by simp
  have a: "\<forall>msgs uc cf.
            StreamChat msgs uc cf \<in> set (drop (length (calls sv))
                                         (calls (snd (chat B ui sv message history mode1))))
            \<longrightarrow> cf = Some (ContextFilter []) \<and> uc"
    unfolding chat_new_calls using assms(1) ids by (auto split: sum.splits)
  have b: "chat B ui sv message history mode1 =
              (Inr (yield_deltas (response B (docs sv) (all_messages ui message history) True
                                    (Some (ContextFilter [])))),
               sv\<lparr>calls := calls sv @ [ListIngested,
                       StreamChat (all_messages ui message history) True
                         (Some (ContextFilter []))]\<rparr>)"
    if "\<forall>d \<in> set (docs sv). file_name_of d \<noteq> None"
    using selected_docs_ids_total [OF that, of sel "[]"] none assms(1)
    by (simp add: chat_selected)
  from a b show ?thesis by blast
qed

section \<open>Claims about the accumulator and the history builder\<close>

text \<open>
  C6, as the claim states it, fails in its example: for the deltas
  \<^verbatim>\<open>["Hel", "lo", ""]\<close> the generator does not yield the three values
  \<^verbatim>\<open>["Hel", "Hello", "Hello"]\<close>.
\<close>

theorem yield_deltas_example_counterexample:
  "yield_deltas [Str ''Hel'', Str ''lo'', Str []] \<noteq> [''Hel'', ''Hello'', ''Hello'']"
  by (simp add: yield_deltas_def delta_text_def)

lemma length_yield_loop: "length (yield_loop full ds) = Suc (length ds)"
  by (induction ds arbitrary: full) simp_all

lemma yield_loop_nonempty: "yield_loop full ds \<noteq> []"
  by (cases ds) simp_all

lemma last_yield_loop: "last (yield_loop full ds) = full @ concat (map delta_text ds)"
  by (induction ds arbitrary: full) (simp_all add: yield_loop_nonempty)

text \<open>
  C6, amended. For every finite delta sequence, the generator yields one value after
  each delta, the text accumulated so far (plain strings verbatim, a structured event
  contributing its \<^verbatim>\<open>.delta\<close> text), and then one more value, the complete text,
  whatever the last delta is: \<open>n\<close> deltas give \<open>n + 1\<close> values, the last of which
  is the concatenation of all fragments in order. The deltas \<^verbatim>\<open>["Hel", "lo", ""]\<close>
  give \<^verbatim>\<open>["Hel", "Hello", "Hello", "Hello"]\<close>.
\<close>

theorem yield_deltas_cumulative:
  "yield_deltas stream =
     map (\<lambda>k. concat (map delta_text (take k stream))) [1..<Suc (length stream)]
       @ [concat (map delta_text stream)]
   \<and> length (yield_deltas stream) = Suc (length stream)
   \<and> last (yield_deltas stream) = concat (map delta_text stream)
   \<and> yield_deltas [Str ''Hel'', Str ''lo'', Str []] = [''Hel'', ''Hello'', ''Hello'', ''Hello'']"
proof -
  have "yield_deltas [Str ''Hel'', Str ''lo'', Str []] = [''Hel'', ''Hello'', ''Hello'', ''Hello'']"
    by (simp add: yield_deltas_def delta_text_def)
  moreover have "yield_deltas stream =
     map (\<lambda>k. concat (map delta_text (take k stream))) [1..<Suc (length stream)]
       @ [concat (map delta_text stream)]"
    using yield_loop_eq [of "[]" stream] by (simp add: yield_deltas_def)
  moreover have "length (yield_deltas stream) = Suc (length stream)"
    by (simp add: yield_deltas_def length_yield_loop)
  moreover have "last (yield_deltas stream) = concat (map delta_text stream)"
    by (simp add: yield_deltas_def last_yield_loop)
  ultimately show ?thesis by blast
qed

lemma build_history_assistant_nth:
  assumes "i < length history" and "i < 10"
  shows "build_history history ! (2 * i + 1) =
           \<lparr>content = hd (py_split SOURCES_SEPARATOR (snd (history ! i))), role = ASSISTANT\<rparr>"
proof -
  have "2 * i + 1 < 20" using assms(2) by simp
  then have "build_history history ! (2 * i + 1) = history_messages history ! (2 * i + 1)"
    by (simp add: build_history_def)
  with history_messages_nth [OF assms(1)] show ?thesis by simp
qed

lemma build_history_no_separator:
  assumes "m \<in> set (build_history history)" and "role m = ASSISTANT"
  shows "\<not> sublist SOURCES_SEPARATOR (content m)"
proof -
  from assms(1) have "m \<in> set (history_messages history)"
    by (auto simp: build_history_def dest: in_set_takeD)
  from history_messages_assistant [OF this assms(2)]
  obtain p where "content m = hd (py_split SOURCES_SEPARATOR (snd p))" by auto
  then show ?thesis
    by (simp add: hd_py_split text_before_no_sep SOURCES_SEPARATOR_nonempty)
qed

text \<open>
  C8. The assistant message that the History Builder makes of a transcript pair has
  as content the first field of the stored text split at the separator
  \<^verbatim>\<open>"\n\n Sources: \n"\<close>: the part strictly before the first occurrence of the
  separator (no occurrence starts earlier), the whole text when the separator does not
  occur. It is the message at position \<open>2 * i + 1\<close> of the result for each pair \<open>i\<close>
  that the cap of 20 messages keeps, and no assistant message of the result contains
  the separator.
\<close>

theorem build_history_strips_sources:
  "(\<forall>i < length history. i < 10 \<longrightarrow>
      build_history history ! (2 * i + 1) =
        \<lparr>content = hd (py_split SOURCES_SEPARATOR (snd (history ! i))), role = ASSISTANT\<rparr>)
   \<and> (\<forall>m \<in> set (build_history history).
        role m = ASSISTANT \<longrightarrow> \<not> sublist SOURCES_SEPARATOR (content m))
   \<and> hd (py_split SOURCES_SEPARATOR t) = text_before SOURCES_SEPARATOR t
   \<and> (sublist SOURCES_SEPARATOR t \<longrightarrow>
        (\<exists>rest. t = hd (py_split SOURCES_SEPARATOR t) @ SOURCES_SEPARATOR @ rest)
        \<and> (\<forall>j < length (hd (py_split SOURCES_SEPARATOR t)).
              \<not> prefix SOURCES_SEPARATOR (drop j t)))
   \<and> (\<not> sublist SOURCES_SEPARATOR t \<longrightarrow> hd (py_split SOURCES_SEPARATOR t) = t)
   \<and> interaction_messages (u, t) =
       [\<lparr>content = u, role = USER\<rparr>,
        \<lparr>content = hd (py_split SOURCES_SEPARATOR t), role = ASSISTANT\<rparr>]"
  using build_history_assistant_nth [of _ history] build_history_no_separator [of _ history]
    text_before_cut [of SOURCES_SEPARATOR t] text_before_no_start [of _ SOURCES_SEPARATOR t]
    text_before_id [of SOURCES_SEPARATOR t]
  by (simp add: hd_py_split interaction_messages_def)

text \<open>The specification's example: \<^verbatim>\<open>"Hello world\n\n Sources: \n1. doc.pdf"\<close>.\<close>

theorem build_history_strips_sources_witness:
  "0 < length example_transcript
   \<and> build_history example_transcript ! 1 = \<lparr>content = ''Hello world'', role = ASSISTANT\<rparr>
   \<and> \<lparr>content = ''Hello world'', role = ASSISTANT\<rparr> \<in> set (build_history example_transcript)
   \<and> \<not> sublist SOURCES_SEPARATOR ''Hello world''
   \<and> sublist SOURCES_SEPARATOR example_answer
   \<and> (\<exists>rest. example_answer = ''Hello world'' @ SOURCES_SEPARATOR @ rest)"
proof -
  note inst = build_history_strips_sources [of example_transcript example_answer]
  have len: "0 < length example_transcript"
    by (simp add: example_transcript_def)
  have e1: "hd (py_split SOURCES_SEPARATOR (snd (example_transcript ! 0))) = ''Hello world''"
    by code_simp
  have e2: "hd (py_split SOURCES_SEPARATOR example_answer) = ''Hello world''"
    by code_simp
  have sub: "sublist SOURCES_SEPARATOR example_answer"
    unfolding example_answer_def by (rule sublist_appendI)
  have "build_history example_transcript ! (2 * 0 + 1) =
      \<lparr>content = hd (py_split SOURCES_SEPARATOR (snd (example_transcript ! 0))), role = ASSISTANT\<rparr>"
    using inst [THEN conjunct1, rule_format, of 0] len by simp
  then have nth: "build_history example_transcript ! 1 = \<lparr>content = ''Hello world'', role = ASSISTANT\<rparr>"
    by (simp add: e1)
  have mem: "\<lparr>content = ''Hello world'', role = ASSISTANT\<rparr> \<in> set (build_history example_transcript)"
    by code_simp
  from inst mem have nosep: "\<not> sublist SOURCES_SEPARATOR ''Hello world''"
    by fastforce
  from inst sub have "\<exists>rest. example_answer =
      hd (py_split SOURCES_SEPARATOR example_answer) @ SOURCES_SEPARATOR @ rest"
    by blast
  then have cut: "\<exists>rest. example_answer = ''Hello world'' @ SOURCES_SEPARATOR @ rest"
    by (simp only: e2)
  from len nth mem nosep sub cut show ?thesis by blast
qed

lemma eleven_turns_history:
  "build_history eleven_turns = history_messages (take 10 eleven_turns)
   \<and> build_history eleven_turns
       \<noteq> drop (length (history_messages eleven_turns) - 20) (history_messages eleven_turns)
   \<and> last (history_messages eleven_turns) = \<lparr>content = ''a11'', role = ASSISTANT\<rparr>
   \<and> last (build_history eleven_turns) = \<lparr>content = ''a10'', role = ASSISTANT\<rparr>
   \<and> hd (build_history eleven_turns) = \<lparr>content = ''q1'', role = USER\<rparr>"
  by code_simp

text \<open>
  C2. \<^verbatim>\<open>build_history\<close> returns \<^verbatim>\<open>history_messages[:20]\<close>, the first 20 messages
  of the flattened transcript. For the transcript of eleven turns it returns the
  messages of turns 1 to 10 and drops those of turn 11, the most recent one; the
  result is not the last 20 messages.
\<close>

theorem build_history_keeps_first_twenty:
  "build_history history = take 20 (history_messages history)
   \<and> build_history eleven_turns = history_messages (take 10 eleven_turns)
   \<and> build_history eleven_turns
       \<noteq> drop (length (history_messages eleven_turns) - 20) (history_messages eleven_turns)
   \<and> last (history_messages eleven_turns) = \<lparr>content = ''a11'', role = ASSISTANT\<rparr>
   \<and> last (build_history eleven_turns) = \<lparr>content = ''a10'', role = ASSISTANT\<rparr>
   \<and> hd (build_history eleven_turns) = \<lparr>content = ''q1'', role = USER\<rparr>"
proof -
  have "build_history history = take 20 (history_messages history)"
    by (simp add: build_history_def)
  with eleven_turns_history show ?thesis by blast
qed

section \<open>Uploading files\<close>

lemma docs_fold_delete:
  "docs (fold delete ids sv) = filter (\<lambda>r. doc_id r \<notin> set ids) (docs sv)"
  by (induction ids arbitrary: sv) (auto simp: delete_def intro: filter_cong)

lemma calls_fold_delete: "calls (fold delete ids sv) = calls sv @ map Delete ids"
  by (induction ids arbitrary: sv) (simp_all add: delete_def)

lemma upload_scan_Inr:
  "upload_scan names acc ds = Inr r \<Longrightarrow>
     r = acc @ map doc_id (filter (\<lambda>d. file_name_of d \<in> Some ` set names) ds)"
proof (induction ds arbitrary: acc)
  case Nil
  then show ?case by simp
next
  case (Cons d ds)
  show ?case
  proof (cases "doc_metadata d")
    case None
    with Cons show ?thesis by (simp add: file_name_of_None_md)
  next
    case (Some md)
    show ?thesis
    proof (cases "md = []")
      case True
      with Some Cons show ?thesis by (simp add: file_name_of_Some_md)
    next
      case False
      with Some Cons.prems obtain fn where fn: "map_of md ''file_name'' = Some fn"
        and rest: "upload_scan names (if fn \<in> set names then acc @ [doc_id d] else acc) ds = Inr r"
        by (auto simp: py_getitem_def split: option.splits)
      have "file_name_of d = Some fn"
        using Some fn by (simp add: file_name_of_Some_md)
      with Cons.IH [OF rest] show ?thesis by auto
    qed
  qed
qed

lemma upload_scan_total:
  "\<forall>d \<in> set ds. doc_metadata d = None \<or> doc_metadata d = Some [] \<or> file_name_of d \<noteq> None \<Longrightarrow>
     \<exists>r. upload_scan names acc ds = Inr r"
proof (induction ds arbitrary: acc)
  case Nil
  then show ?case by simp
next
  case (Cons d ds)
  from Cons.prems have rest: "\<forall>d \<in> set ds. doc_metadata d = None \<or> doc_metadata d = Some [] \<or> file_name_of d \<noteq> None"
    by simp
  from Cons.prems have "doc_metadata d = None \<or> doc_metadata d = Some [] \<or> file_name_of d \<noteq> None"
    by simp
  then show ?case
    using Cons.IH [OF rest]
    by (auto simp: file_name_of_def py_getitem_def split: option.splits)
qed

lemma upload_file_Inr:
  assumes "fst (upload_file Path path_name B files sv) = Inr u"
  shows "upload_file Path path_name B files sv =
     (Inr (),
      bulk_ingest B (map (\<lambda>path. (path_name path, path)) (map Path files))
        (fold delete
           (map doc_id (filter (\<lambda>d. file_name_of d \<in> Some ` set (map path_name (map Path files))) (docs sv)))
           (sv\<lparr>calls := calls sv @ [ListIngested]\<rparr>)))"
proof -
  from assms obtain r where r: "upload_scan (map path_name (map Path files)) [] (docs sv) = Inr r"
    by (auto simp: upload_file_def list_ingested_def Let_def split: sum.splits)
  from upload_scan_Inr [OF r]
  have "r = map doc_id (filter (\<lambda>d. file_name_of d \<in> Some ` set (map path_name (map Path files))) (docs sv))"
    by simp
  moreover have "(if 0 < length r then fold delete r (sv\<lparr>calls := calls sv @ [ListIngested]\<rparr>)
                   else sv\<lparr>calls := calls sv @ [ListIngested]\<rparr>)
                 = fold delete r (sv\<lparr>calls := calls sv @ [ListIngested]\<rparr>)"
    by (cases r) simp_all
  ultimately show ?thesis
    using r by (simp add: upload_file_def list_ingested_def Let_def)
qed

text \<open>
  When \<^verbatim>\<open>_upload_file\<close> returns, the calls it made are: the listing, one
  deletion for each listed record whose file-name metadata is one of the incoming
  display names, in listing order, and then the bulk ingestion; the store that the
  bulk ingestion finds holds no record with one of these names; and afterwards the
  records named \<open>n\<close>, for an incoming name \<open>n\<close>, are exactly the records named
  \<open>n\<close> that the bulk ingestion created. The upload returns when every record has
  no metadata, empty metadata or a file name.
\<close>

lemma upload_file_replaces:
  "(fst (upload_file Path path_name B files sv) = Inr () \<longrightarrow>
      (let file_names = map path_name (map Path files);
           ids = map doc_id (filter (\<lambda>d. file_name_of d \<in> Some ` set file_names) (docs sv));
           kept = filter (\<lambda>r. doc_id r \<notin> set ids) (docs sv);
           pairs = map (\<lambda>path. (path_name path, path)) (map Path files);
           sv' = snd (upload_file Path path_name B files sv)
       in calls sv' = calls sv @ [ListIngested] @ map Delete ids @ [BulkIngest pairs]
          \<and> (\<forall>d \<in> set kept. file_name_of d \<notin> Some ` set file_names)
          \<and> docs sv' = kept @ ingest B kept pairs
          \<and> (\<forall>n \<in> set file_names.
                filter (\<lambda>d. file_name_of d = Some n) (docs sv')
                  = filter (\<lambda>d. file_name_of d = Some n) (ingest B kept pairs))))
   \<and> ((\<forall>d \<in> set (docs sv).
          doc_metadata d = None \<or> doc_metadata d = Some [] \<or> file_name_of d \<noteq> None)
        \<longrightarrow> fst (upload_file Path path_name B files sv) = Inr ())"
proof -
  let ?names = "map path_name (map Path files)"
  let ?ids = "map doc_id (filter (\<lambda>d. file_name_of d \<in> Some ` set ?names) (docs sv))"
  let ?kept = "filter (\<lambda>r. doc_id r \<notin> set ?ids) (docs sv)"
  let ?pairs = "map (\<lambda>path. (path_name path, path)) (map Path files)"
  let ?sv' = "snd (upload_file Path path_name B files sv)"
  have kept: "\<forall>d \<in> set ?kept. file_name_of d \<notin> Some ` set ?names"
  proof
    fix d
    assume d: "d \<in> set ?kept"
    show "file_name_of d \<notin> Some ` set ?names"
    proof
      assume "file_name_of d \<in> Some ` set ?names"
      with d have "d \<in> set (filter (\<lambda>d. file_name_of d \<in> Some ` set ?names) (docs sv))"
        by simp
      then have "doc_id d \<in> set ?ids"
        by (simp only: set_map) (rule imageI)
      with d show False by simp
    qed
  qed
  have sel: "filter (\<lambda>d. file_name_of d = Some n) ?kept = []" if "n \<in> set ?names" for n
  proof -
    have "file_name_of d \<noteq> Some n" if "d \<in> set ?kept" for d
      using kept that \<open>n \<in> set ?names\<close> by blast
    then show ?thesis
      unfolding filter_empty_conv by blast
  qed
  have a: "calls ?sv' = calls sv @ [ListIngested] @ map Delete ?ids @ [BulkIngest ?pairs]
          \<and> docs ?sv' = ?kept @ ingest B ?kept ?pairs"
    if "fst (upload_file Path path_name B files sv) = Inr ()"
    using upload_file_Inr [OF that]
    by (simp add: bulk_ingest_def docs_fold_delete calls_fold_delete)
  have b: "fst (upload_file Path path_name B files sv) = Inr ()"
    if "\<forall>d \<in> set (docs sv).
          doc_metadata d = None \<or> doc_metadata d = Some [] \<or> file_name_of d \<noteq> None"
    using upload_scan_total [OF that, of ?names "[]"]
    by (auto simp: upload_file_def list_ingested_def Let_def)
  have c: "filter (\<lambda>d. file_name_of d = Some n) (?kept @ ingest B ?kept ?pairs)
             = filter (\<lambda>d. file_name_of d = Some n) (ingest B ?kept ?pairs)"
    if "n \<in> set ?names" for n
    using sel [OF that] by simp
  show ?thesis
  proof (intro conjI impI)
    assume ok: "fst (upload_file Path path_name B files sv) = Inr ()"
    from a [OF ok] have d: "docs ?sv' = ?kept @ ingest B ?kept ?pairs" by blast
    from a [OF ok] kept c show
      "let file_names = map path_name (map Path files);
           ids = map doc_id (filter (\<lambda>d. file_name_of d \<in> Some ` set file_names) (docs sv));
           kept = filter (\<lambda>r. doc_id r \<notin> set ids) (docs sv);
           pairs = map (\<lambda>path. (path_name path, path)) (map Path files);
           sv' = snd (upload_file Path path_name B files sv)
       in calls sv' = calls sv @ [ListIngested] @ map Delete ids @ [BulkIngest pairs]
          \<and> (\<forall>d \<in> set kept. file_name_of d \<notin> Some ` set file_names)
          \<and> docs sv' = kept @ ingest B kept pairs
          \<and> (\<forall>n \<in> set file_names.
                filter (\<lambda>d. file_name_of d = Some n) (docs sv')
                  = filter (\<lambda>d. file_name_of d = Some n) (ingest B kept pairs))"
      unfolding Let_def d by blast
  next
    assume "\<forall>d \<in> set (docs sv).
          doc_metadata d = None \<or> doc_metadata d = Some [] \<or> file_name_of d \<noteq> None"
    then show "fst (upload_file Path path_name B files sv) = Inr ()" by (rule b)
  qed
qed

text \<open>
  C7. On the store that holds a record of \<^verbatim>\<open>a.pdf\<close> and a record whose non-empty
  metadata lacks the file-name key, \<^verbatim>\<open>_upload_file\<close> raises \<^verbatim>\<open>KeyError\<close> in its
  scan, whatever the uploaded paths: the only call made is the listing, no record is
  deleted and nothing is ingested. After uploading \<^verbatim>\<open>a.pdf\<close> the old record of
  \<^verbatim>\<open>a.pdf\<close> is still in the store and no new one is.
\<close>

theorem upload_file_raises_before_replacing:
  "upload_file Path path_name B files mixed_store
     = (Inl (KeyError ''file_name''), mixed_store\<lparr>calls := [ListIngested]\<rparr>)
   \<and> docs (snd (upload_file id id example_backend [''a.pdf''] mixed_store))
       = [\<lparr>doc_id = ''d1'', doc_metadata = Some [(''file_name'', ''a.pdf'')]\<rparr>,
          \<lparr>doc_id = ''d2'', doc_metadata = Some [(''page_label'', ''1'')]\<rparr>]
   \<and> calls (snd (upload_file id id example_backend [''a.pdf''] mixed_store)) = [ListIngested]
   \<and> Some ''a.pdf'' \<in> set (map file_name_of (docs mixed_store))"
proof -
  have scan: "upload_scan names [] (docs mixed_store) = Inl (KeyError ''file_name'')" for names
    by (simp add: mixed_store_def py_getitem_def)
  have raises: "upload_file P n B' fs mixed_store
                  = (Inl (KeyError ''file_name''), mixed_store\<lparr>calls := [ListIngested]\<rparr>)"
    for P n B' fs
    by (simp add: upload_file_def list_ingested_def Let_def scan) (simp add: mixed_store_def)
  have d: "docs (mixed_store\<lparr>calls := [ListIngested]\<rparr>)
             = [\<lparr>doc_id = ''d1'', doc_metadata = Some [(''file_name'', ''a.pdf'')]\<rparr>,
                \<lparr>doc_id = ''d2'', doc_metadata = Some [(''page_label'', ''1'')]\<rparr>]"
    by (simp add: mixed_store_def)
  have m: "Some ''a.pdf'' \<in> set (map file_name_of (docs mixed_store))"
    by (simp add: mixed_store_def file_name_of_def)
  from raises d m show ?thesis by simp
qed

section \<open>Deleting files and reading metadata\<close>

lemma delete_selected_loop_docs:
  "delete_selected_loop (Some sel) ds sv = (None, sv') \<Longrightarrow>
     docs sv' = filter (\<lambda>r. doc_id r \<notin> set (map doc_id (filter (\<lambda>d. file_name_of d = Some sel) ds)))
                  (docs sv)"
proof (induction ds arbitrary: sv)
  case Nil
  then show ?case by simp
next
  case (Cons d ds)
  show ?case
  proof (cases "doc_metadata d")
    case None
    with Cons.prems have "delete_selected_loop (Some sel) ds sv = (None, sv')" by simp
    from Cons.IH [OF this] None show ?thesis
      by (simp add: file_name_of_None_md)
  next
    case (Some md)
    show ?thesis
    proof (cases "md = []")
      case True
      with Some Cons.prems have "delete_selected_loop (Some sel) ds sv = (None, sv')" by simp
      from Cons.IH [OF this] Some True show ?thesis
        by (simp add: file_name_of_Some_md)
    next
      case False
      with Some Cons.prems obtain fn where fn: "map_of md ''file_name'' = Some fn"
        and rest: "delete_selected_loop (Some sel) ds
                     (if Some fn = Some sel then delete (doc_id d) sv else sv) = (None, sv')"
        by (auto simp: py_getitem_def split: option.splits)
      have f: "file_name_of d = Some fn"
        using Some fn by (simp add: file_name_of_Some_md)
      show ?thesis
      proof (cases "fn = sel")
        case True
        with rest have "delete_selected_loop (Some sel) ds (delete (doc_id d) sv) = (None, sv')"
          by simp
        from Cons.IH [OF this] True f show ?thesis
          by (auto simp: delete_def intro!: filter_cong)
      next
        case False
        with rest have "delete_selected_loop (Some sel) ds sv = (None, sv')" by simp
        from Cons.IH [OF this] False f show ?thesis
          by (auto intro!: filter_cong)
      qed
    qed
  qed
qed

text \<open>
  When \<^verbatim>\<open>_delete_selected_file\<close> returns, no record with the selected file name is
  left in the store.
\<close>

lemma delete_selected_file_removes:
  assumes "delete_selected_file ui sv = (Inr r, ui', sv')"
    and "selected_filename ui = Some sel"
  shows "\<forall>d \<in> set (docs sv'). file_name_of d \<noteq> Some sel"
proof -
  from assms obtain sv2 where
    loop: "delete_selected_loop (Some sel) (docs sv) (sv\<lparr>calls := calls sv @ [ListIngested]\<rparr>) = (None, sv2)"
    and sv': "sv' = snd (list_ingested_files sv2)"
    by (auto simp: delete_selected_file_def list_ingested_def Let_def
             split: prod.splits option.splits)
  have "docs sv' = docs sv2"
    using sv' by (simp add: list_ingested_files_def list_ingested_def)
  with delete_selected_loop_docs [OF loop] show ?thesis by auto
qed

lemma delete_selected_file_ui: "fst (snd (delete_selected_file ui sv)) = ui"
  by (simp add: delete_selected_file_def Let_def split: prod.splits option.splits)

lemma delete_all_files_ui: "fst (snd (delete_all_files ui sv)) = ui"
  by (simp add: delete_all_files_def Let_def split: prod.splits)

lemma delete_selected_example:
  "delete_selected_file (example_ui (Some ''a.pdf'')) example_store =
     (Inr ({''b.pdf''}, \<lparr>delete_button = False, deselect_button = False,
                          selected_textbox = ''All files''\<rparr>),
      example_ui (Some ''a.pdf''),
      \<lparr>docs = [\<lparr>doc_id = ''d3'', doc_metadata = Some [(''file_name'', ''b.pdf'')]\<rparr>],
       calls = [ListIngested, Delete ''d1'', Delete ''d2'', ListIngested]\<rparr>)"
  by (simp add: delete_selected_file_def example_ui_def example_store_def list_ingested_def
        list_ingested_files_def py_getitem_def py_get_def delete_def)

lemma delete_all_example:
  "delete_all_files (example_ui (Some ''a.pdf'')) example_store =
     (({}, \<lparr>delete_button = False, deselect_button = False, selected_textbox = ''All files''\<rparr>),
      example_ui (Some ''a.pdf''),
      \<lparr>docs = [],
       calls = [ListIngested, Delete ''d1'', Delete ''d2'', Delete ''d3'', ListIngested]\<rparr>)"
  by (simp add: delete_all_files_def example_ui_def example_store_def list_ingested_def
        list_ingested_files_def delete_def)

lemma selected_filename_example_ui: "selected_filename (example_ui sel) = sel"
  by (simp add: example_ui_def)

text \<open>
  C3. Neither \<^verbatim>\<open>_delete_selected_file\<close> nor \<^verbatim>\<open>_delete_all_files\<close> assigns
  \<^verbatim>\<open>self._selected_filename\<close>: the session they leave is the one they found. With
  \<^verbatim>\<open>a.pdf\<close> selected, the selected name is still \<^verbatim>\<open>a.pdf\<close> after either handler,
  although its records are gone and the selection box shows \<^verbatim>\<open>All files\<close>, the text
  that \<^verbatim>\<open>_deselect_selected_file\<close> shows when it does clear the selection.
\<close>

theorem delete_keeps_selection:
  "fst (snd (delete_selected_file ui sv)) = ui
   \<and> fst (snd (delete_all_files ui sv)) = ui
   \<and> selected_filename (fst (snd (delete_selected_file (example_ui (Some ''a.pdf'')) example_store)))
       = Some ''a.pdf''
   \<and> selected_filename (fst (snd (delete_all_files (example_ui (Some ''a.pdf'')) example_store)))
       = Some ''a.pdf''
   \<and> selected_filename (snd (deselect_selected_file (example_ui (Some ''a.pdf'')))) = None
   \<and> selected_textbox (snd (projr (fst (delete_selected_file (example_ui (Some ''a.pdf'')) example_store))))
       = selected_textbox (fst (deselect_selected_file (example_ui (Some ''a.pdf''))))"
  by (simp add: delete_selected_file_ui delete_all_files_ui delete_selected_example
        deselect_selected_file_def selected_filename_example_ui)

text \<open>
  C5. With a document selected, \<^verbatim>\<open>_chat\<close> raises \<^verbatim>\<open>TypeError\<close> on a record
  without metadata and \<^verbatim>\<open>KeyError\<close> on a record whose metadata lacks the file-name
  key; \<^verbatim>\<open>_upload_file\<close> and \<^verbatim>\<open>_delete_selected_file\<close> raise \<^verbatim>\<open>KeyError\<close> on
  the latter. \<^verbatim>\<open>_list_ingested_files\<close> reads the same records without raising.
\<close>

theorem metadata_lookups_raise:
  "fst (chat example_backend (example_ui (Some ''a.pdf'')) no_metadata_store ''q'' [] ''Query Files'')
     = Inl TypeError
   \<and> fst (chat example_backend (example_ui (Some ''a.pdf'')) no_file_name_store ''q'' [] ''Query Files'')
     = Inl (KeyError ''file_name'')
   \<and> fst (upload_file id id example_backend [''a.pdf''] no_file_name_store)
     = Inl (KeyError ''file_name'')
   \<and> fst (delete_selected_file (example_ui (Some ''a.pdf'')) no_file_name_store)
     = Inl (KeyError ''file_name'')
   \<and> fst (list_ingested_files no_file_name_store) = {''[FILE NAME MISSING]''}
   \<and> fst (list_ingested_files no_metadata_store) = {}"
  by (simp add: chat_selected example_ui_def no_metadata_store_def no_file_name_store_def
        upload_file_def delete_selected_file_def list_ingested_files_def list_ingested_def
        py_getitem_def py_get_def)

section \<open>The theorems at the example data\<close>

text \<open>
  A turn with \<^verbatim>\<open>c.pdf\<close> selected on the store of \<^verbatim>\<open>a.pdf\<close> and \<^verbatim>\<open>b.pdf\<close>.
\<close>

theorem no_match_filter_empty_witness:
  "selected_filename (example_ui (Some ''c.pdf'')) = Some ''c.pdf''
   \<and> Some ''c.pdf'' \<notin> set (map file_name_of (docs example_store))
   \<and> None \<notin> set (map file_name_of (docs example_store))
   \<and> chat example_backend (example_ui (Some ''c.pdf'')) example_store ''q'' [] ''Query Files'' =
       (Inr [''Hel'', ''Hello'', ''Hello'', ''Hello''],
        example_store\<lparr>calls := calls example_store @ [ListIngested,
            StreamChat (all_messages (example_ui (Some ''c.pdf'')) ''q'' []) True
              (Some (ContextFilter []))]\<rparr>)"
proof -
  have h1: "selected_filename (example_ui (Some ''c.pdf'')) = Some ''c.pdf''"
    by (simp add: example_ui_def)
  have h2: "\<forall>d \<in> set (docs example_store). file_name_of d \<noteq> Some ''c.pdf''"
    by (simp add: example_store_def file_name_of_def)
  have h3: "\<forall>d \<in> set (docs example_store). file_name_of d \<noteq> None"
    by (simp add: example_store_def file_name_of_def)
  have r: "yield_deltas (response example_backend (docs example_store)
             (all_messages (example_ui (Some ''c.pdf'')) ''q'' []) True (Some (ContextFilter [])))
           = [''Hel'', ''Hello'', ''Hello'', ''Hello'']"
    by (simp add: example_backend_def yield_deltas_def delta_text_def)
  note T = no_match_filter_empty [OF h1 h2, of example_backend "''q''" "[]" "''Query Files''"]
  from T [THEN conjunct2, THEN mp, OF h3]
  have "chat example_backend (example_ui (Some ''c.pdf'')) example_store ''q'' [] ''Query Files'' =
       (Inr [''Hel'', ''Hello'', ''Hello'', ''Hello''],
        example_store\<lparr>calls := calls example_store @ [ListIngested,
            StreamChat (all_messages (example_ui (Some ''c.pdf'')) ''q'' []) True
              (Some (ContextFilter []))]\<rparr>)"
    by (simp only: r)
  moreover have "Some ''c.pdf'' \<notin> set (map file_name_of (docs example_store))"
    using h2 by auto
  moreover have "None \<notin> set (map file_name_of (docs example_store))"
    using h3 by auto
  ultimately show ?thesis using h1 by blast
qed

text \<open>
  A turn after eleven earlier ones, with a system prompt: 1 + 20 + 1 messages.
\<close>

theorem chat_new_message_last_witness:
  "system_prompt (example_ui None) \<noteq> []
   \<and> StreamChat (all_messages (example_ui None) ''q12'' eleven_turns) True None
       \<in> set (drop (length (calls example_store))
                 (calls (snd (chat example_backend (example_ui None) example_store ''q12''
                                eleven_turns ''Search Files''))))
   \<and> length (all_messages (example_ui None) ''q12'' eleven_turns) = 22
   \<and> last (all_messages (example_ui None) ''q12'' eleven_turns) = \<lparr>content = ''q12'', role = USER\<rparr>
   \<and> all_messages (example_ui None) ''q12'' eleven_turns ! 0
       = \<lparr>content = ''Answer from the context.'', role = SYSTEM\<rparr>"
proof -
  note T = chat_new_message_last [of "example_ui None" "''q12''" eleven_turns example_store
                                    example_backend "''Search Files''"]
  have p: "system_prompt (example_ui None) \<noteq> []"
    by (simp add: example_ui_def)
  have sp: "system_prompt (example_ui None) = ''Answer from the context.''"
    by (simp add: example_ui_def)
  have mem: "StreamChat (all_messages (example_ui None) ''q12'' eleven_turns) True None
       \<in> set (drop (length (calls example_store))
                 (calls (snd (chat example_backend (example_ui None) example_store ''q12''
                                eleven_turns ''Search Files''))))"
    by (simp add: chat_new_calls example_ui_def)
  have len: "length (all_messages (example_ui None) ''q12'' eleven_turns) = 22"
    using p by (simp add: all_messages_eq length_history_messages eleven_turns_def)
  from T have l: "last (all_messages (example_ui None) ''q12'' eleven_turns)
                    = \<lparr>content = ''q12'', role = USER\<rparr>"
    by blast
  from T [THEN conjunct2, THEN conjunct2, THEN conjunct1, THEN mp, OF p]
  have z: "all_messages (example_ui None) ''q12'' eleven_turns ! 0
       = \<lparr>content = ''Answer from the context.'', role = SYSTEM\<rparr>"
    by (simp only: sp)
  from p mem len l z show ?thesis by blast
qed

text \<open>
  Uploading \<^verbatim>\<open>a.pdf\<close> again: its two page records are deleted, then the new record
  is ingested.
\<close>

lemma upload_file_replaces_example:
  "None \<notin> set (map file_name_of (docs example_store))
   \<and> fst (upload_file id id example_backend [''a.pdf''] example_store) = Inr ()
   \<and> calls (snd (upload_file id id example_backend [''a.pdf''] example_store))
       = [ListIngested, Delete ''d1'', Delete ''d2'', BulkIngest [(''a.pdf'', ''a.pdf'')]]
   \<and> docs (snd (upload_file id id example_backend [''a.pdf''] example_store))
       = [\<lparr>doc_id = ''d3'', doc_metadata = Some [(''file_name'', ''b.pdf'')]\<rparr>,
          \<lparr>doc_id = ''new-a.pdf'', doc_metadata = Some [(''file_name'', ''a.pdf'')]\<rparr>]"
proof -
  note T = upload_file_replaces [of id id example_backend "[''a.pdf'']" example_store,
                                 unfolded Let_def]
  have wf: "\<forall>d \<in> set (docs example_store).
       doc_metadata d = None \<or> doc_metadata d = Some [] \<or> file_name_of d \<noteq> None"
    by (simp add: example_store_def file_name_of_def)
  from T [THEN conjunct2, THEN mp, OF wf]
  have ok: "fst (upload_file id id example_backend [''a.pdf''] example_store) = Inr ()" .
  have ids: "map doc_id (filter (\<lambda>d. file_name_of d \<in> Some ` set (map id (map id [''a.pdf''])))
                          (docs example_store)) = [''d1'', ''d2'']"
    by (simp add: example_store_def file_name_of_def)
  have kept: "filter (\<lambda>r. doc_id r \<notin> set [''d1'', ''d2'']) (docs example_store)
                = [\<lparr>doc_id = ''d3'', doc_metadata = Some [(''file_name'', ''b.pdf'')]\<rparr>]"
    by (simp add: example_store_def)
  have cs: "calls example_store = []"
    by (simp add: example_store_def)
  have ing: "ingest example_backend ds [(''a.pdf'', ''a.pdf'')]
               = [\<lparr>doc_id = ''new-a.pdf'', doc_metadata = Some [(''file_name'', ''a.pdf'')]\<rparr>]" for ds
    by (simp add: example_backend_def)
  from T [THEN conjunct1, THEN mp, OF ok]
  have "calls (snd (upload_file id id example_backend [''a.pdf''] example_store))
       = [ListIngested, Delete ''d1'', Delete ''d2'', BulkIngest [(''a.pdf'', ''a.pdf'')]]
     \<and> docs (snd (upload_file id id example_backend [''a.pdf''] example_store))
       = [\<lparr>doc_id = ''d3'', doc_metadata = Some [(''file_name'', ''b.pdf'')]\<rparr>,
          \<lparr>doc_id = ''new-a.pdf'', doc_metadata = Some [(''file_name'', ''a.pdf'')]\<rparr>]"
    unfolding ids kept cs by (simp add: ing)
  moreover have "None \<notin> set (map file_name_of (docs example_store))"
    by (simp add: example_store_def file_name_of_def)
  ultimately show ?thesis using ok by blast
qed

end
